theory Spec2Isabelle
  imports Complex_Main
begin

section \<open>Velocity estimators of velocity.py\<close>

text \<open>
  The estimators of \<^verbatim>\<open>velocity.py\<close> work on sequences of Python/numpy floats. The
  model reads every float as a real number: rounding, overflow and the infinities are
  outside the model. Everything else the code does is written out: Python's indexing
  (negative indices count from the end, an index out of range raises), its division
  (a zero divisor raises), its \<^verbatim>\<open>range\<close>, its loops with \<^verbatim>\<open>break\<close>, and the stores
  into the result array.
\<close>

subsection \<open>Python primitives\<close>

datatype error = ZeroDivisionError | IndexError

definition and_then :: "error + 'a \<Rightarrow> ('a \<Rightarrow> error + 'b) \<Rightarrow> error + 'b" where
  "and_then m g = (case m of Inl e \<Rightarrow> Inl e | Inr x \<Rightarrow> g x)"

definition truediv :: "real \<Rightarrow> real \<Rightarrow> error + real" where
  \<comment> \<open>\<^verbatim>\<open>a / b\<close> on Python numbers\<close>
  "truediv a b = (if b = 0 then Inl ZeroDivisionError else Inr (a / b))"

definition py_range :: "int \<Rightarrow> int \<Rightarrow> int list" where
  \<comment> \<open>\<^verbatim>\<open>range(a, b)\<close>\<close>
  "py_range a b = [a..b - 1]"

definition len :: "'a list \<Rightarrow> int" where
  "len xs = int (length xs)"

definition getitem :: "'a list \<Rightarrow> int \<Rightarrow> error + 'a" where
  \<comment> \<open>\<^verbatim>\<open>xs[i]\<close>\<close>
  "getitem xs i =
     (let j = (if i < 0 then len xs + i else i)
      in if 0 \<le> j \<and> j < len xs then Inr (xs ! nat j) else Inl IndexError)"

definition setitem :: "'a list \<Rightarrow> int \<Rightarrow> 'a \<Rightarrow> error + 'a list" where
  \<comment> \<open>\<^verbatim>\<open>xs[i] = v\<close>, returning the updated array\<close>
  "setitem xs i v =
     (let j = (if i < 0 then len xs + i else i)
      in if 0 \<le> j \<and> j < len xs then Inr (xs[nat j := v]) else Inl IndexError)"

definition zeros :: "nat \<Rightarrow> real list" where
  "zeros m = replicate m 0"

fun collect :: "(int \<Rightarrow> error + real) \<Rightarrow> int list \<Rightarrow> error + real list" where
  \<comment> \<open>the list comprehension \<^verbatim>\<open>[g(j) for j in js]\<close>; the first failing element raises\<close>
  "collect g [] = Inr []"
| "collect g (j # js) =
     (case g j of
        Inl e \<Rightarrow> Inl e
      | Inr y \<Rightarrow> (case collect g js of Inl e \<Rightarrow> Inl e | Inr ys \<Rightarrow> Inr (y # ys)))"

subsection \<open>First-order adaptive windowing\<close>

definition trial_sizes :: "int \<Rightarrow> int \<Rightarrow> int list" where
  \<comment> \<open>the window size parameters \<^verbatim>\<open>range(1,min(n,k))\<close> of step \<open>k\<close>\<close>
  "trial_sizes n k = py_range 1 (min n k)"

definition window_offsets :: "int \<Rightarrow> int list" where
  \<comment> \<open>\<^verbatim>\<open>range(i+1)\<close>, the offsets the best-fit sums run over\<close>
  "window_offsets i = py_range 0 (i + 1)"

definition interior_offsets :: "int \<Rightarrow> int list" where
  \<comment> \<open>\<^verbatim>\<open>range(1,i)\<close>, the offsets the validation loop checks\<close>
  "interior_offsets i = py_range 1 i"

definition slope :: "bool \<Rightarrow> real list \<Rightarrow> real \<Rightarrow> int \<Rightarrow> int \<Rightarrow> error + real" where
  \<comment> \<open>the trial slope \<open>b\<close> of window size parameter \<open>i\<close> at step \<open>k\<close>\<close>
  "slope best pos T k i =
     (if best then
        and_then (collect (\<lambda>j. getitem pos (k - j)) (window_offsets i)) (\<lambda>ys.
        and_then (collect (\<lambda>j. and_then (getitem pos (k - j)) (\<lambda>y. Inr (y * of_int j)))
                    (window_offsets i)) (\<lambda>ws.
        truediv (of_int i * sum_list ys - 2 * sum_list ws)
                (T * of_int i * (of_int i + 1) * (of_int i + 2) / 6)))
      else
        and_then (getitem pos k) (\<lambda>pk.
        and_then (getitem pos (k - i)) (\<lambda>pki.
        truediv (pk - pki) (of_int i * T))))"

fun outside :: "real list \<Rightarrow> real \<Rightarrow> real \<Rightarrow> int \<Rightarrow> real \<Rightarrow> int list \<Rightarrow> error + bool" where
  \<comment> \<open>the validation loop over \<open>j\<close>; the result is the flag \<^verbatim>\<open>outside\<close> after the loop\<close>
  "outside pos T noise_max k b [] = Inr False"
| "outside pos T noise_max k b (j # js) =
     (case getitem pos k of
        Inl e \<Rightarrow> Inl e
      | Inr pk \<Rightarrow>
          (let ykj = pk - (b * of_int j * T)
           in case getitem pos (k - j) of
                Inl e \<Rightarrow> Inl e
              | Inr pkj \<Rightarrow>
                  if ykj < (pkj - noise_max) \<or> ykj > (pkj + noise_max) then Inr True
                  else outside pos T noise_max k b js))"

fun grow :: "bool \<Rightarrow> real list \<Rightarrow> real \<Rightarrow> real \<Rightarrow> int \<Rightarrow> int list \<Rightarrow> real \<Rightarrow> error + real" where
  \<comment> \<open>the loop over \<open>i\<close>, from the current value of \<^verbatim>\<open>velocity\<close>; the result is
      \<^verbatim>\<open>velocity\<close> after the loop\<close>
  "grow best pos T noise_max k [] velocity = Inr velocity"
| "grow best pos T noise_max k (i # is) velocity =
     (case slope best pos T k i of
        Inl e \<Rightarrow> Inl e
      | Inr b \<Rightarrow>
          (case outside pos T noise_max k b (interior_offsets i) of
             Inl e \<Rightarrow> Inl e
           | Inr out \<Rightarrow> if out then Inr velocity else grow best pos T noise_max k is b))"

fun foaw_loop ::
  "bool \<Rightarrow> real list \<Rightarrow> real \<Rightarrow> real \<Rightarrow> int \<Rightarrow> int list \<Rightarrow> real list \<Rightarrow> error + real list" where
  \<comment> \<open>the loop over \<open>k\<close>, from the current contents of \<^verbatim>\<open>result\<close>\<close>
  "foaw_loop best pos T noise_max n [] result = Inr result"
| "foaw_loop best pos T noise_max n (k # ks) result =
     (case grow best pos T noise_max k (trial_sizes n k) 0 of
        Inl e \<Rightarrow> Inl e
      | Inr velocity \<Rightarrow>
          (case setitem result k velocity of
             Inl e \<Rightarrow> Inl e
           | Inr result' \<Rightarrow> foaw_loop best pos T noise_max n ks result'))"

definition foaw :: "real list \<Rightarrow> real \<Rightarrow> real \<Rightarrow> int \<Rightarrow> bool \<Rightarrow> error + real list" where
  "foaw pos sr noise_max n best =
     and_then (truediv 1 sr) (\<lambda>T.
       foaw_loop best pos T noise_max n (py_range 0 (len pos)) (zeros (length pos)))"


subsection \<open>Median filter\<close>

text \<open>
  The result array of the median filter holds floats that may be \<^verbatim>\<open>nan\<close>: numpy's
  median of an empty window is \<^verbatim>\<open>nan\<close>, not an error.
\<close>

datatype npfloat = Val real | NaN

definition median :: "real list \<Rightarrow> npfloat" where
  \<comment> \<open>numpy's \<^verbatim>\<open>median\<close> of a one-dimensional array: the middle element of the sorted
      array, the mean of the two middle elements when the length is even\<close>
  "median xs =
     (let s = sort xs; m = length xs
      in if m = 0 then NaN
         else if odd m then Val (s ! (m div 2))
         else Val ((s ! (m div 2 - 1) + s ! (m div 2)) / 2))"

definition slice :: "'a list \<Rightarrow> int \<Rightarrow> int \<Rightarrow> 'a list" where
  \<comment> \<open>\<^verbatim>\<open>xs[lo:hi]\<close>: bounds are clipped to the array, negative bounds count from the end\<close>
  "slice xs lo hi =
     (let clip = (\<lambda>i. if i < 0 then max (len xs + i) 0 else min i (len xs));
          a = clip lo; b = clip hi
      in take (nat (b - a)) (drop (nat a) xs))"

fun median_filter_loop ::
  "real list \<Rightarrow> int \<Rightarrow> int list \<Rightarrow> npfloat list \<Rightarrow> error + npfloat list" where
  "median_filter_loop pos n [] result = Inr result"
| "median_filter_loop pos n (k # ks) result =
     (case setitem result k (median (slice pos (max (k - n) 0) k)) of
        Inl e \<Rightarrow> Inl e
      | Inr result' \<Rightarrow> median_filter_loop pos n ks result')"

definition median_filter :: "real list \<Rightarrow> int \<Rightarrow> error + npfloat list" where
  "median_filter pos n =
     median_filter_loop pos n (py_range 1 (len pos)) (map Val (zeros (length pos)))"

subsection \<open>Levant's differentiator\<close>

text \<open>
  numpy's \<^verbatim>\<open>sign\<close> is 0 at 0, as \<^const>\<open>sgn\<close> is. numpy's \<^verbatim>\<open>sqrt\<close> of a negative
  number is \<^verbatim>\<open>nan\<close>, which the reals do not have: the model follows the code where the
  argument of \<^verbatim>\<open>sqrt\<close> is not negative, that is, where \<open>Lambda\<close> is given or \<open>C \<ge> 0\<close>
  (the argument \<open>\<bar>e\<bar>\<close> in \<open>f\<close> never is).
\<close>

definition f :: "real \<Rightarrow> real \<Rightarrow> real \<Rightarrow> real \<Rightarrow> real \<Rightarrow> real \<times> real" where
  "f alpha Lambda p u1 x =
     (let e = x - p
      in (- alpha * sgn e, u1 - Lambda * sqrt \<bar>e\<bar> * sgn e))"

text \<open>
  The body of each of the three loops, as a function of the sample \<open>pos[k]\<close> and of the
  state \<open>(u1, x)\<close>: it returns the new state and the value stored in \<open>result[k]\<close>.
\<close>

definition rk4_step :: "real \<Rightarrow> real \<Rightarrow> real \<Rightarrow> real \<Rightarrow> real \<times> real \<Rightarrow> (real \<times> real) \<times> real" where
  "rk4_step alpha Lambda T p s =
     (case s of (u1, x) \<Rightarrow>
       (case f alpha Lambda p u1 x of (k1du1, k1dx) \<Rightarrow>
       (case f alpha Lambda p (u1 + (T / 2) * k1du1) (x + (T / 2) * k1dx) of (k2du1, k2dx) \<Rightarrow>
       (case f alpha Lambda p (u1 + (T / 2) * k2du1) (x + (T / 2) * k2dx) of (k3du1, k3dx) \<Rightarrow>
       (case f alpha Lambda p (u1 + T * k3du1) (x + T * k3dx) of (k4du1, k4dx) \<Rightarrow>
         (let u1' = u1 + (T / 6) * (k1du1 + 2 * k2du1 + 2 * k3du1 + k4du1);
              u = (1 / 6) * (k1dx + 2 * k2dx + 2 * k3dx + k4dx);
              x' = x + u * T
          in ((u1', x'), u)))))))"

definition rk2_step :: "real \<Rightarrow> real \<Rightarrow> real \<Rightarrow> real \<Rightarrow> real \<times> real \<Rightarrow> (real \<times> real) \<times> real" where
  "rk2_step alpha Lambda T p s =
     (case s of (u1, x) \<Rightarrow>
       (case f alpha Lambda p u1 x of (k1du1, k1dx) \<Rightarrow>
         (let tu1 = u1 + k1du1 * (T / 2);
              tx = x + k1dx * (T / 2)
          in case f alpha Lambda p tu1 tx of (k2du1, k2dx) \<Rightarrow>
               ((u1 + k2du1 * T, x + k2dx * T), k2dx))))"

definition rk1_step :: "real \<Rightarrow> real \<Rightarrow> real \<Rightarrow> real \<Rightarrow> real \<times> real \<Rightarrow> (real \<times> real) \<times> real" where
  "rk1_step alpha Lambda T p s =
     (case s of (u1, x) \<Rightarrow>
       (case f alpha Lambda p u1 x of (k1du1, k1dx) \<Rightarrow>
         ((u1 + k1du1 * T, x + k1dx * T), k1dx)))"

fun levant_loop ::
  "(real \<Rightarrow> real \<times> real \<Rightarrow> (real \<times> real) \<times> real) \<Rightarrow> real list \<Rightarrow> int list \<Rightarrow>
   real \<times> real \<Rightarrow> real list \<Rightarrow> error + (real \<times> real) \<times> real list" where
  \<comment> \<open>a loop over \<open>k\<close> with the given body, from the state \<open>(u1, x)\<close> and the current
      contents of \<^verbatim>\<open>result\<close>\<close>
  "levant_loop step pos [] s result = Inr (s, result)"
| "levant_loop step pos (k # ks) s result =
     (case getitem pos k of
        Inl e \<Rightarrow> Inl e
      | Inr p \<Rightarrow>
          (case step p s of
             (s', u) \<Rightarrow>
               (case setitem result k u of
                  Inl e \<Rightarrow> Inl e
                | Inr result' \<Rightarrow> levant_loop step pos ks s' result')))"

definition coefficients :: "real \<Rightarrow> real option \<Rightarrow> real option \<Rightarrow> real \<times> real" where
  \<comment> \<open>\<open>alpha\<close> and \<open>Lambda\<close>, derived from \<open>C\<close> where they are \<^verbatim>\<open>None\<close>\<close>
  "coefficients C alpha Lambda =
     ((case alpha of None \<Rightarrow> 1.1 * C | Some a \<Rightarrow> a),
      (case Lambda of None \<Rightarrow> sqrt C | Some l \<Rightarrow> l))"

definition levant ::
  "real list \<Rightarrow> real \<Rightarrow> real \<Rightarrow> real option \<Rightarrow> real option \<Rightarrow> int \<Rightarrow> error + real list" where
  "levant pos sr C alpha Lambda rk =
     and_then (truediv 1 sr) (\<lambda>T.
       (let result = zeros (length pos)
        in case coefficients C alpha Lambda of
             (alpha, Lambda) \<Rightarrow>
               (let x = 0; u1 = 0
                in if rk = 4 then
                     and_then (levant_loop (rk4_step alpha Lambda T) pos
                                 (py_range 0 (len pos)) (u1, x) result)
                       (\<lambda>(s, result). Inr result)
                   else if rk = 2 then
                     and_then (levant_loop (rk2_step alpha Lambda T) pos
                                 (py_range 0 (len pos)) (u1, x) result)
                       (\<lambda>(s, result). Inr result)
                   else if rk = 1 then
                     and_then (levant_loop (rk1_step alpha Lambda T) pos
                                 (py_range 0 (len pos)) (u1, x) result)
                       (\<lambda>(s, result). Inr result)
                   else Inr result)))"

subsection \<open>FOAW in floating point\<close>

text \<open>
  Where a claim depends on rounding, the real-number reading above is not enough. This is
  \<open>foaw\<close> once more, with the result of every arithmetic operation on floats passed through
  a rounding function \<open>fl\<close>, in the order in which Python evaluates the expressions. The
  operations on Python integers (\<open>k - j\<close>, \<open>i + 1\<close>, \<open>i + 2\<close>) are exact, and so are the
  comparisons. With the identity for \<open>fl\<close> it is \<open>foaw\<close> itself.
\<close>

definition fl_truediv :: "(real \<Rightarrow> real) \<Rightarrow> real \<Rightarrow> real \<Rightarrow> error + real" where
  "fl_truediv fl a b = (if b = 0 then Inl ZeroDivisionError else Inr (fl (a / b)))"

definition fl_sum :: "(real \<Rightarrow> real) \<Rightarrow> real list \<Rightarrow> real" where
  "fl_sum fl ys = foldl (\<lambda>a y. fl (a + y)) 0 ys"

definition fl_slope ::
  "(real \<Rightarrow> real) \<Rightarrow> bool \<Rightarrow> real list \<Rightarrow> real \<Rightarrow> int \<Rightarrow> int \<Rightarrow> error + real" where
  "fl_slope fl best pos T k i =
     (if best then
        and_then (collect (\<lambda>j. getitem pos (k - j)) (window_offsets i)) (\<lambda>ys.
        and_then (collect (\<lambda>j. and_then (getitem pos (k - j)) (\<lambda>y. Inr (fl (y * of_int j))))
                    (window_offsets i)) (\<lambda>ws.
        fl_truediv fl (fl (fl (of_int i * fl_sum fl ys) - fl (2 * fl_sum fl ws)))
          (fl (fl (fl (fl (T * of_int i) * (of_int i + 1)) * (of_int i + 2)) / 6))))
      else
        and_then (getitem pos k) (\<lambda>pk.
        and_then (getitem pos (k - i)) (\<lambda>pki.
        fl_truediv fl (fl (pk - pki)) (fl (of_int i * T)))))"

fun fl_outside ::
  "(real \<Rightarrow> real) \<Rightarrow> real list \<Rightarrow> real \<Rightarrow> real \<Rightarrow> int \<Rightarrow> real \<Rightarrow> int list \<Rightarrow> error + bool" where
  "fl_outside fl pos T noise_max k b [] = Inr False"
| "fl_outside fl pos T noise_max k b (j # js) =
     (case getitem pos k of
        Inl e \<Rightarrow> Inl e
      | Inr pk \<Rightarrow>
          (let ykj = fl (pk - fl (fl (b * of_int j) * T))
           in case getitem pos (k - j) of
                Inl e \<Rightarrow> Inl e
              | Inr pkj \<Rightarrow>
                  if ykj < fl (pkj - noise_max) \<or> ykj > fl (pkj + noise_max) then Inr True
                  else fl_outside fl pos T noise_max k b js))"

fun fl_grow ::
  "(real \<Rightarrow> real) \<Rightarrow> bool \<Rightarrow> real list \<Rightarrow> real \<Rightarrow> real \<Rightarrow> int \<Rightarrow> int list \<Rightarrow> real \<Rightarrow>
   error + real" where
  "fl_grow fl best pos T noise_max k [] velocity = Inr velocity"
| "fl_grow fl best pos T noise_max k (i # is) velocity =
     (case fl_slope fl best pos T k i of
        Inl e \<Rightarrow> Inl e
      | Inr b \<Rightarrow>
          (case fl_outside fl pos T noise_max k b (interior_offsets i) of
             Inl e \<Rightarrow> Inl e
           | Inr out \<Rightarrow>
               if out then Inr velocity else fl_grow fl best pos T noise_max k is b))"

fun fl_foaw_loop ::
  "(real \<Rightarrow> real) \<Rightarrow> bool \<Rightarrow> real list \<Rightarrow> real \<Rightarrow> real \<Rightarrow> int \<Rightarrow> int list \<Rightarrow> real list \<Rightarrow>
   error + real list" where
  "fl_foaw_loop fl best pos T noise_max n [] result = Inr result"
| "fl_foaw_loop fl best pos T noise_max n (k # ks) result =
     (case fl_grow fl best pos T noise_max k (trial_sizes n k) 0 of
        Inl e \<Rightarrow> Inl e
      | Inr velocity \<Rightarrow>
          (case setitem result k velocity of
             Inl e \<Rightarrow> Inl e
           | Inr result' \<Rightarrow> fl_foaw_loop fl best pos T noise_max n ks result'))"

definition fl_foaw ::
  "(real \<Rightarrow> real) \<Rightarrow> real list \<Rightarrow> real \<Rightarrow> real \<Rightarrow> int \<Rightarrow> bool \<Rightarrow> error + real list" where
  "fl_foaw fl pos sr noise_max n best =
     and_then (fl_truediv fl 1 sr) (\<lambda>T.
       fl_foaw_loop fl best pos T noise_max n (py_range 0 (len pos)) (zeros (length pos)))"





subsection \<open>The specification's formulas\<close>

text \<open>
  The formulas of the specification, in its own words, on natural-number indices: the
  end-fit and best-fit slopes of the window of \<open>i + 1\<close> samples ending at step \<open>k\<close>, the
  noise margin test at one interior offset, and the validation of a window.
\<close>

definition spec_end_fit :: "real list \<Rightarrow> real \<Rightarrow> nat \<Rightarrow> nat \<Rightarrow> real" where
  "spec_end_fit pos T k i = (pos ! k - pos ! (k - i)) / (real i * T)"

definition spec_best_fit :: "real list \<Rightarrow> real \<Rightarrow> nat \<Rightarrow> nat \<Rightarrow> real" where
  "spec_best_fit pos T k i =
     (real i * (\<Sum>j = 0..i. pos ! (k - j)) - 2 * (\<Sum>j = 0..i. real j * pos ! (k - j)))
       / (T * real i * (real i + 1) * (real i + 2) / 6)"

definition spec_trial_slope :: "bool \<Rightarrow> real list \<Rightarrow> real \<Rightarrow> nat \<Rightarrow> nat \<Rightarrow> real" where
  "spec_trial_slope best pos T k i =
     (if best then spec_best_fit pos T k i else spec_end_fit pos T k i)"

definition spec_within_margin :: "real list \<Rightarrow> real \<Rightarrow> real \<Rightarrow> nat \<Rightarrow> real \<Rightarrow> nat \<Rightarrow> bool" where
  "spec_within_margin pos T noise_max k b j =
     (pos ! (k - j) - noise_max \<le> pos ! k - b * real j * T \<and>
      pos ! k - b * real j * T \<le> pos ! (k - j) + noise_max)"

definition spec_window_passes :: "real list \<Rightarrow> real \<Rightarrow> real \<Rightarrow> nat \<Rightarrow> real \<Rightarrow> nat \<Rightarrow> bool" where
  "spec_window_passes pos T noise_max k b i =
     (\<forall>j \<in> {1..<i}. spec_within_margin pos T noise_max k b j)"



section \<open>Properties\<close>

subsection \<open>The model refines the specification's formulas\<close>

lemma getitem_nat: "i < length xs \<Longrightarrow> getitem xs (int i) = Inr (xs ! i)"
  by (simp add: getitem_def len_def)

lemma getitem_diff:
  "j \<le> k \<Longrightarrow> k < length xs \<Longrightarrow> getitem xs (int k - int j) = Inr (xs ! (k - j))"
  using getitem_nat [of "k - j" xs] by simp

lemma setitem_nat: "i < length xs \<Longrightarrow> setitem xs (int i) v = Inr (xs[i := v])"
  by (simp add: setitem_def len_def)

lemma py_range_nat: "py_range (int a) (int b) = map int [a..<b]"
  by (rule nth_equalityI) (auto simp: py_range_def)

lemma collect_map:
  "\<forall>j \<in> set js. g j = Inr (h j) \<Longrightarrow> collect g js = Inr (map h js)"
  by (induction js) auto

lemma window_offsets_nat: "window_offsets (int i) = map int [0..<Suc i]"
  using py_range_nat [of 0 "Suc i"] by (simp add: window_offsets_def add.commute)

lemma interior_offsets_nat: "interior_offsets (int i) = map int [1..<i]"
  using py_range_nat [of 1 i] by (simp add: interior_offsets_def)

lemma trial_sizes_nat: "trial_sizes n (int k) = map int [1..<nat (min n (int k))]"
proof (cases "0 \<le> n")
  case True
  then have "min n (int k) = int (nat (min n (int k)))" by simp
  then show ?thesis
    using py_range_nat [of 1 "nat (min n (int k))"] by (simp add: trial_sizes_def)
next
  case False
  then show ?thesis by (simp add: trial_sizes_def py_range_def)
qed

lemma sum_list_upt: "sum_list (map g [0..<Suc i]) = (\<Sum>j = 0..i. (g j :: real))"
  by (simp add: interv_sum_list_conv_sum_set_nat atLeastLessThanSuc_atLeastAtMost
      del: upt_Suc)

lemma slope_refines:
  assumes "1 \<le> i" "i \<le> k" "k < length pos" "T \<noteq> 0"
  shows "slope best pos T (int k) (int i) = Inr (spec_trial_slope best pos T k i)"
proof (cases best)
  case True
  have ys: "collect (\<lambda>j. getitem pos (int k - j)) (window_offsets (int i))
              = Inr (map (\<lambda>j. pos ! (k - j)) [0..<Suc i])"
    unfolding window_offsets_nat
    using assms by (subst collect_map [where h = "\<lambda>j. pos ! (k - nat j)"])
      (auto simp: getitem_diff comp_def)
  have ws: "collect (\<lambda>j. and_then (getitem pos (int k - j)) (\<lambda>y. Inr (y * of_int j)))
                (window_offsets (int i))
              = Inr (map (\<lambda>j. real j * pos ! (k - j)) [0..<Suc i])"
    unfolding window_offsets_nat
    using assms by (subst collect_map [where h = "\<lambda>j. pos ! (k - nat j) * of_int j"])
      (auto simp: getitem_diff comp_def and_then_def mult.commute)
  have nz: "T * real i * (real i + 1) * (real i + 2) / 6 \<noteq> 0"
    using assms by simp
  have "slope best pos T (int k) (int i) =
      truediv (of_int (int i) * sum_list (map (\<lambda>j. pos ! (k - j)) [0..<Suc i])
               - 2 * sum_list (map (\<lambda>j. real j * pos ! (k - j)) [0..<Suc i]))
              (T * of_int (int i) * (of_int (int i) + 1) * (of_int (int i) + 2) / 6)"
    by (simp only: slope_def True if_True ys ws) (simp only: and_then_def sum.case)
  then show ?thesis
    using True nz
    by (simp add: truediv_def sum_list_upt spec_trial_slope_def spec_best_fit_def
        del: upt_Suc)
next
  case False
  have nz: "real i * T \<noteq> 0" using assms by simp
  show ?thesis
    using False nz assms
    by (simp add: slope_def getitem_nat getitem_diff and_then_def truediv_def
        spec_trial_slope_def spec_end_fit_def)
qed

lemma outside_refines_list:
  "k < length pos \<Longrightarrow> \<forall>j \<in> set js. j \<le> k \<Longrightarrow>
   outside pos T noise_max (int k) b (map int js)
     = Inr (\<exists>j \<in> set js. \<not> spec_within_margin pos T noise_max k b j)"
  by (induction js) (auto simp: getitem_nat getitem_diff spec_within_margin_def Let_def)

lemma outside_refines:
  "k < length pos \<Longrightarrow> i \<le> Suc k \<Longrightarrow>
   outside pos T noise_max (int k) b (interior_offsets (int i))
     = Inr (\<not> spec_window_passes pos T noise_max k b i)"
  unfolding interior_offsets_nat
  by (subst outside_refines_list) (auto simp: spec_window_passes_def)


lemma grow_total:
  "k < length pos \<Longrightarrow> T \<noteq> 0 \<Longrightarrow> \<forall>i \<in> set is. 1 \<le> i \<and> i \<le> k \<Longrightarrow>
   \<exists>v. grow best pos T noise_max (int k) (map int is) velocity = Inr v"
  by (induction "is" arbitrary: velocity) (auto simp: slope_refines outside_refines)



lemma foaw_loop_steps:
  assumes "T \<noteq> 0"
  shows "length result = length pos \<Longrightarrow> \<forall>k \<in> set ks. k < length pos \<Longrightarrow>
   \<exists>res. foaw_loop best pos T noise_max n (map int ks) result = Inr res \<and>
         length res = length pos \<and>
         (\<forall>k \<in> set ks. grow best pos T noise_max (int k) (trial_sizes n (int k)) 0
                          = Inr (res ! k)) \<and>
         (\<forall>k. k \<notin> set ks \<longrightarrow> res ! k = result ! k)"
proof (induction ks arbitrary: result)
  case Nil
  then show ?case by simp
next
  case (Cons k ks)
  have k: "k < length pos" using Cons.prems by simp
  have "\<forall>i \<in> set [1..<nat (min n (int k))]. 1 \<le> i \<and> i \<le> k" by auto
  from grow_total [OF k assms this]
  obtain v where v: "grow best pos T noise_max (int k) (trial_sizes n (int k)) 0 = Inr v"
    unfolding trial_sizes_nat by blast
  have len: "length (result[k := v]) = length pos" using Cons.prems by simp
  have "\<forall>k \<in> set ks. k < length pos" using Cons.prems by simp
  from Cons.IH [OF len this]
  obtain res where res:
    "foaw_loop best pos T noise_max n (map int ks) (result[k := v]) = Inr res"
    "length res = length pos"
    "\<forall>k \<in> set ks. grow best pos T noise_max (int k) (trial_sizes n (int k)) 0 = Inr (res ! k)"
    "\<forall>j. j \<notin> set ks \<longrightarrow> res ! j = result[k := v] ! j"
    by blast
  have run: "foaw_loop best pos T noise_max n (map int (k # ks)) result = Inr res"
    using v res(1) k Cons.prems(1) by (simp add: setitem_nat)
  have at_k: "grow best pos T noise_max (int k) (trial_sizes n (int k)) 0 = Inr (res ! k)"
  proof (cases "k \<in> set ks")
    case True
    then show ?thesis using res(3) by blast
  next
    case False
    then have "res ! k = v" using res(4) k Cons.prems(1) by simp
    then show ?thesis using v by simp
  qed
  have kept: "\<forall>j. j \<notin> set (k # ks) \<longrightarrow> res ! j = result ! j"
    using res(4) by auto
  show ?case using run res(2) res(3) at_k kept by auto
qed

lemma foaw_steps:
  assumes "sr \<noteq> 0"
  shows "\<exists>res. foaw pos sr noise_max n best = Inr res \<and> length res = length pos \<and>
     (\<forall>k < length pos. grow best pos (1 / sr) noise_max (int k) (trial_sizes n (int k)) 0
                          = Inr (res ! k))"
proof -
  have T: "1 / sr \<noteq> 0" using assms by simp
  have range: "py_range 0 (len pos) = map int [0..<length pos]"
    using py_range_nat [of 0 "length pos"] by (simp add: len_def)
  from foaw_loop_steps [OF T, of "zeros (length pos)" pos "[0..<length pos]" best noise_max n]
  obtain res where
    "foaw_loop best pos (1 / sr) noise_max n (map int [0..<length pos]) (zeros (length pos))
       = Inr res"
    "length res = length pos"
    "\<forall>k \<in> set [0..<length pos].
        grow best pos (1 / sr) noise_max (int k) (trial_sizes n (int k)) 0 = Inr (res ! k)"
    by (auto simp: zeros_def)
  then show ?thesis
    using assms by (auto simp: foaw_def truediv_def and_then_def range)
qed

lemma foaw_zero_rate: "foaw pos 0 noise_max n best = Inl ZeroDivisionError"
  by (simp add: foaw_def truediv_def and_then_def)

lemma py_range_rec: "a < b \<Longrightarrow> py_range a b = a # py_range (a + 1) b"
  by (simp add: py_range_def upto_rec1)

lemma py_range_empty: "b \<le> a \<Longrightarrow> py_range a b = []"
  by (simp add: py_range_def)

lemma upt_split_at: "a \<le> i \<Longrightarrow> i < m \<Longrightarrow> [a..<m] = [a..<i] @ i # [Suc i..<m]"
proof -
  assume i: "a \<le> i" "i < m"
  have "[a..<i + (m - i)] = [a..<i] @ [i..<i + (m - i)]"
    using i(1) by (rule upt_add_eq_append)
  moreover have "i + (m - i) = m" using i(2) by simp
  moreover have "[i..<m] = i # [Suc i..<m]" using i(2) by (rule upt_conv_Cons)
  ultimately show ?thesis by simp
qed


subsection \<open>FOAW: validation and rejection of a window\<close>




subsection \<open>FOAW: the linear ramp, in floating point\<close>

text \<open>With exact arithmetic the floating-point model is the model above.\<close>

lemma foldl_plus_sum_list: "foldl (\<lambda>a y. a + y) a ys = a + sum_list (ys :: real list)"
  by (induction ys arbitrary: a) (simp_all add: add.assoc)

lemma fl_sum_exact: "fl_sum (\<lambda>x. x) ys = sum_list ys"
  by (simp add: fl_sum_def foldl_plus_sum_list)

lemma fl_slope_exact: "fl_slope (\<lambda>x. x) best pos T k i = slope best pos T k i"
  by (simp add: fl_slope_def slope_def fl_truediv_def truediv_def fl_sum_exact)

lemma fl_outside_exact:
  "fl_outside (\<lambda>x. x) pos T noise_max k b js = outside pos T noise_max k b js"
  by (induction js) (simp_all add: Let_def split: sum.splits)

lemma fl_grow_exact:
  "fl_grow (\<lambda>x. x) best pos T noise_max k is velocity = grow best pos T noise_max k is velocity"
  by (induction "is" arbitrary: velocity)
    (simp_all add: fl_slope_exact fl_outside_exact split: sum.splits)

lemma fl_foaw_loop_exact:
  "fl_foaw_loop (\<lambda>x. x) best pos T noise_max n ks result
     = foaw_loop best pos T noise_max n ks result"
  by (induction ks arbitrary: result) (simp_all add: fl_grow_exact split: sum.splits)

lemma fl_foaw_exact: "fl_foaw (\<lambda>x. x) pos sr noise_max n best = foaw pos sr noise_max n best"
  by (simp add: fl_foaw_def foaw_def fl_truediv_def truediv_def fl_foaw_loop_exact)


































































subsection \<open>FOAW: the best-fit slope\<close>

text \<open>
  Claim C3. With \<^verbatim>\<open>best=True\<close> and \<open>T = 1/sr\<close>, the trial slope that the code computes for
  a window size parameter \<open>i\<close> of step \<open>k\<close> is the closed-form least-squares slope
  \<open>(i\<cdot>\<Sum> pos[k-j] - 2\<cdot>\<Sum> j\<cdot>pos[k-j]) / (T\<cdot>i\<cdot>(i+1)\<cdot>(i+2)/6)\<close>, the sums over \<open>j = 0..i\<close>,
  and computing it raises no error.
\<close>

theorem foaw_best_fit_closed_form:
  assumes "sr \<noteq> 0" and "k < length pos" and "i \<in> set (trial_sizes n (int k))"
  shows "slope True pos (1 / sr) (int k) i = Inr (spec_best_fit pos (1 / sr) k (nat i))"
proof -
  from assms(3) obtain i' where i': "i = int i'" "1 \<le> i'" "i' < k"
    unfolding trial_sizes_nat by auto
  have "1 / sr \<noteq> 0" using assms(1) by simp
  from slope_refines [OF i'(2) _ assms(2) this, of True] i'
  show ?thesis by (simp add: spec_trial_slope_def)
qed

theorem foaw_best_fit_closed_form_witness:
  "slope True [0, 1, 2, 10] (1 / 1) (int 3) 2 = Inr (9 / 2)"
proof -
  have "(2::int) \<in> set (trial_sizes 16 (int 3))"
    by (simp add: trial_sizes_def py_range_rec py_range_empty)
  from foaw_best_fit_closed_form [of 1 3 "[0, 1, 2, 10]" 2 16, OF _ _ this]
  show ?thesis
    by (simp add: spec_best_fit_def eval_nat_numeral)
qed

subsection \<open>FOAW: the window stays inside the history\<close>

text \<open>
  Claim C6. At step \<open>k\<close> every trial window size parameter \<open>i\<close> satisfies
  \<open>1 \<le> i \<le> min(n,k) - 1\<close>; the window has \<open>i + 1 \<le> min(n,k)\<close> samples; and every offset
  \<open>j\<close> the code uses (in the best-fit sums and in the validation loop) satisfies
  \<open>0 \<le> j \<le> i\<close>, so that the index \<open>k - j\<close> lies in \<open>[0, k]\<close> and the access \<open>pos[k-j]\<close>
  reads that sample, with no error and no wrap-around of a negative index.
\<close>

theorem foaw_window_bounded:
  "\<forall>i \<in> set (trial_sizes n (int k)).
     1 \<le> i \<and> i \<le> min n (int k) - 1 \<and>
     int (length (window_offsets i)) = i + 1 \<and> i + 1 \<le> min n (int k) \<and>
     (\<forall>j \<in> set (window_offsets i) \<union> set (interior_offsets i).
        0 \<le> j \<and> j \<le> i \<and> 0 \<le> int k - j \<and> int k - j \<le> int k \<and>
        (k < length pos \<longrightarrow> getitem pos (int k - j) = Inr (pos ! (k - nat j))))"
proof
  fix i
  assume "i \<in> set (trial_sizes n (int k))"
  then have i: "1 \<le> i" "i < min n (int k)"
    by (auto simp: trial_sizes_def py_range_def)
  have "\<forall>j \<in> set (window_offsets i) \<union> set (interior_offsets i).
        0 \<le> j \<and> j \<le> i \<and> 0 \<le> int k - j \<and> int k - j \<le> int k \<and>
        (k < length pos \<longrightarrow> getitem pos (int k - j) = Inr (pos ! (k - nat j)))"
  proof
    fix j
    assume "j \<in> set (window_offsets i) \<union> set (interior_offsets i)"
    then have j: "0 \<le> j" "j \<le> i"
      by (auto simp: window_offsets_def interior_offsets_def py_range_def)
    then have jk: "nat j \<le> k" using i by linarith
    have "getitem pos (int k - j) = Inr (pos ! (k - nat j))" if "k < length pos"
      using getitem_diff [OF jk that] j by simp
    then show "0 \<le> j \<and> j \<le> i \<and> 0 \<le> int k - j \<and> int k - j \<le> int k \<and>
        (k < length pos \<longrightarrow> getitem pos (int k - j) = Inr (pos ! (k - nat j)))"
      using i j by simp
  qed
  moreover have "int (length (window_offsets i)) = i + 1"
    using i by (simp add: window_offsets_def py_range_def)
  ultimately show "1 \<le> i \<and> i \<le> min n (int k) - 1 \<and>
     int (length (window_offsets i)) = i + 1 \<and> i + 1 \<le> min n (int k) \<and>
     (\<forall>j \<in> set (window_offsets i) \<union> set (interior_offsets i).
        0 \<le> j \<and> j \<le> i \<and> 0 \<le> int k - j \<and> int k - j \<le> int k \<and>
        (k < length pos \<longrightarrow> getitem pos (int k - j) = Inr (pos ! (k - nat j))))"
    using i by simp
qed

theorem foaw_window_bounded_witness:
  "(2::int) \<in> set (trial_sizes 16 (int 3)) \<and> (2::int) \<in> set (window_offsets 2) \<and>
   3 < length [0, 1, 2, 10::real] \<and>
   (2::int) + 1 \<le> min 16 (int 3) \<and> getitem [0, 1, 2, 10::real] (int 3 - 2) = Inr 1"
proof -
  have i: "(2::int) \<in> set (trial_sizes 16 (int 3))"
    by (simp add: trial_sizes_def py_range_rec py_range_empty)
  have j: "(2::int) \<in> set (window_offsets 2) \<union> set (interior_offsets 2)"
    by (simp add: window_offsets_def py_range_rec py_range_empty)
  from foaw_window_bounded [of 16 3 "[0, 1, 2, 10]", rule_format, OF i]
  have "\<forall>j \<in> set (window_offsets 2) \<union> set (interior_offsets 2).
        0 \<le> j \<and> j \<le> 2 \<and> 0 \<le> int 3 - j \<and> int 3 - j \<le> int 3 \<and>
        (3 < length [0, 1, 2, 10::real] \<longrightarrow>
         getitem [0, 1, 2, 10::real] (int 3 - j) = Inr ([0, 1, 2, 10] ! (3 - nat j)))"
    by blast
  from this [rule_format, OF j] i j show ?thesis
    by (simp add: window_offsets_def py_range_rec py_range_empty)
qed

subsection \<open>FOAW: the first two steps\<close>

lemma trial_sizes_small: "k \<le> 1 \<Longrightarrow> trial_sizes n k = []"
  by (simp add: trial_sizes_def py_range_def)

text \<open>
  Claim C7. For every position sequence of at least two samples, every sample rate
  (a sample rate is not 0), every \<open>noise_max\<close>, every \<open>n\<close> and both scoring variants,
  FOAW returns \<open>result[0] = 0\<close> and \<open>result[1] = 0\<close>.
\<close>

theorem foaw_first_two_zero:
  assumes "sr \<noteq> 0" and "2 \<le> length pos"
  shows "\<exists>res. foaw pos sr noise_max n best = Inr res \<and> res ! 0 = 0 \<and> res ! 1 = 0"
proof -
  from foaw_steps [OF assms(1), of pos noise_max n best]
  obtain res where res: "foaw pos sr noise_max n best = Inr res"
    and at: "\<forall>k < length pos.
        grow best pos (1 / sr) noise_max (int k) (trial_sizes n (int k)) 0 = Inr (res ! k)"
    by blast
  have "grow best pos (1 / sr) noise_max (int 0) (trial_sizes n (int 0)) 0 = Inr (res ! 0)"
    using at assms(2) by (metis less_le_trans zero_less_numeral)
  moreover
  have "grow best pos (1 / sr) noise_max (int 1) (trial_sizes n (int 1)) 0 = Inr (res ! 1)"
    using at assms(2) by (metis less_le_trans one_less_numeral_iff semiring_norm(76))
  ultimately show ?thesis using res by (simp add: trial_sizes_small)
qed

theorem foaw_first_two_zero_witness:
  "\<exists>res. foaw [5, 7, 8] 100 0 16 True = Inr res \<and> res ! 0 = 0 \<and> res ! 1 = 0"
  using foaw_first_two_zero [of 100 "[5, 7, 8]" 0 16 True] by simp

subsection \<open>Levant: the loop over the samples\<close>

lemma levant_loop_append:
  "levant_loop step pos (ks @ ks') s r =
     (case levant_loop step pos ks s r of
        Inl e \<Rightarrow> Inl e
      | Inr (s', r') \<Rightarrow> levant_loop step pos ks' s' r')"
  by (induction ks arbitrary: s r) (auto split: sum.splits prod.splits)

lemma levant_loop_total:
  "length r = length pos \<Longrightarrow> \<forall>k \<in> set ks. k < length pos \<Longrightarrow>
   \<exists>s' r'. levant_loop step pos (map int ks) s r = Inr (s', r') \<and>
           length r' = length pos \<and> (\<forall>j. j \<notin> set ks \<longrightarrow> r' ! j = r ! j)"
proof (induction ks arbitrary: s r)
  case Nil
  then show ?case by simp
next
  case (Cons k ks)
  obtain s1 u where step: "step (pos ! k) s = (s1, u)" by (cases "step (pos ! k) s")
  have k: "k < length pos" "k < length r" using Cons.prems by simp_all
  have "length (r[k := u]) = length pos" using Cons.prems by simp
  moreover have "\<forall>k \<in> set ks. k < length pos" using Cons.prems by simp
  ultimately obtain s' r' where run:
    "levant_loop step pos (map int ks) s1 (r[k := u]) = Inr (s', r')"
    "length r' = length pos" "\<forall>j. j \<notin> set ks \<longrightarrow> r' ! j = r[k := u] ! j"
    using Cons.IH by blast
  have "levant_loop step pos (map int (k # ks)) s r = Inr (s', r')"
    using k step run(1) by (simp add: getitem_nat setitem_nat)
  moreover have "\<forall>j. j \<notin> set (k # ks) \<longrightarrow> r' ! j = r ! j"
    using run(3) by auto
  ultimately show ?case using run(2) by blast
qed

lemma levant_loop_single:
  "k < length pos \<Longrightarrow> length r = length pos \<Longrightarrow>
   levant_loop step pos [int k] s r
     = Inr (fst (step (pos ! k) s), r[k := snd (step (pos ! k) s)])"
  by (simp add: getitem_nat setitem_nat split: prod.splits)

lemma levant_run_step:
  assumes "k < length pos"
  shows "\<exists>s r. levant_loop step pos (py_range 0 (int k)) s0 (zeros (length pos)) = Inr (s, r) \<and>
      levant_loop step pos (py_range 0 (int k + 1)) s0 (zeros (length pos))
        = Inr (fst (step (pos ! k) s), r[k := snd (step (pos ! k) s)]) \<and>
      (\<exists>s' res. levant_loop step pos (py_range 0 (len pos)) s0 (zeros (length pos))
                  = Inr (s', res) \<and>
                length res = length pos \<and> res ! k = snd (step (pos ! k) s))"
proof -
  let ?z = "zeros (length pos)"
  have z: "length ?z = length pos" by (simp add: zeros_def)
  have r1: "py_range 0 (int k) = map int [0..<k]"
    using py_range_nat [of 0 k] by simp
  have r2: "py_range 0 (int k + 1) = map int [0..<k] @ [int k]"
    using py_range_nat [of 0 "Suc k"] by (simp add: add.commute)
  have "[0..<length pos] = [0..<k] @ k # [Suc k..<length pos]"
    using assms by (simp add: upt_split_at)
  then have r3: "py_range 0 (len pos) = (map int [0..<k] @ [int k]) @ map int [Suc k..<length pos]"
    using py_range_nat [of 0 "length pos"] by (simp add: len_def)
  have "\<forall>j \<in> set [0..<k]. j < length pos" using assms by simp
  from levant_loop_total [OF z this, of step s0]
  obtain s r where before: "levant_loop step pos (map int [0..<k]) s0 ?z = Inr (s, r)"
    and len: "length r = length pos"
    by blast
  let ?s1 = "fst (step (pos ! k) s)" and ?u = "snd (step (pos ! k) s)"
  have upto_k: "levant_loop step pos (map int [0..<k] @ [int k]) s0 ?z = Inr (?s1, r[k := ?u])"
    using before levant_loop_single [OF assms len, of step s]
    by (simp add: levant_loop_append)
  have len': "length (r[k := ?u]) = length pos" using len by simp
  have "\<forall>j \<in> set [Suc k..<length pos]. j < length pos" by simp
  from levant_loop_total [OF len' this, of step ?s1]
  obtain s' res where rest:
    "levant_loop step pos (map int [Suc k..<length pos]) ?s1 (r[k := ?u]) = Inr (s', res)"
    "length res = length pos" "\<forall>j. j \<notin> set [Suc k..<length pos] \<longrightarrow> res ! j = r[k := ?u] ! j"
    by blast
  have "res ! k = ?u" using rest(3) assms len by simp
  moreover have "levant_loop step pos (py_range 0 (len pos)) s0 ?z = Inr (s', res)"
    unfolding r3
    using levant_loop_append [of step pos "map int [0..<k] @ [int k]"
        "map int [Suc k..<length pos]" s0 ?z]
    by (simp only: upto_k rest(1) sum.case prod.case)
  ultimately show ?thesis
    using before upto_k rest(2) unfolding r1 r2 by blast
qed

lemma levant_unfold:
  assumes "sr \<noteq> 0" and "coefficients C alpha Lambda = (a, L)"
    and "levant_loop (rk4_step a L (1 / sr)) pos (py_range 0 (len pos)) (0, 0)
           (zeros (length pos)) = Inr (s4, res4)"
    and "levant_loop (rk2_step a L (1 / sr)) pos (py_range 0 (len pos)) (0, 0)
           (zeros (length pos)) = Inr (s2, res2)"
    and "levant_loop (rk1_step a L (1 / sr)) pos (py_range 0 (len pos)) (0, 0)
           (zeros (length pos)) = Inr (s1, res1)"
  shows "levant pos sr C alpha Lambda rk =
     Inr (if rk = 4 then res4 else if rk = 2 then res2 else if rk = 1 then res1
          else zeros (length pos))"
  using assms by (simp add: levant_def truediv_def and_then_def)

lemma levant_loop_full:
  "\<exists>s res. levant_loop step pos (py_range 0 (len pos)) s0 (zeros (length pos)) = Inr (s, res) \<and>
           length res = length pos"
proof -
  have "py_range 0 (len pos) = map int [0..<length pos]"
    using py_range_nat [of 0 "length pos"] by (simp add: len_def)
  moreover have "length (zeros (length pos)) = length pos" by (simp add: zeros_def)
  moreover have "\<forall>k \<in> set [0..<length pos]. k < length pos" by simp
  ultimately show ?thesis
    using levant_loop_total [of "zeros (length pos)" pos "[0..<length pos]" step s0]
    by auto
qed

lemma levant_total:
  assumes "sr \<noteq> 0"
  shows "\<exists>res. levant pos sr C alpha Lambda rk = Inr res \<and> length res = length pos"
proof -
  obtain a L where c: "coefficients C alpha Lambda = (a, L)"
    by (cases "coefficients C alpha Lambda")
  obtain s4 res4 where r4: "levant_loop (rk4_step a L (1 / sr)) pos (py_range 0 (len pos))
      (0, 0) (zeros (length pos)) = Inr (s4, res4)" "length res4 = length pos"
    using levant_loop_full by blast
  obtain s2 res2 where r2: "levant_loop (rk2_step a L (1 / sr)) pos (py_range 0 (len pos))
      (0, 0) (zeros (length pos)) = Inr (s2, res2)" "length res2 = length pos"
    using levant_loop_full by blast
  obtain s1 res1 where r1: "levant_loop (rk1_step a L (1 / sr)) pos (py_range 0 (len pos))
      (0, 0) (zeros (length pos)) = Inr (s1, res1)" "length res1 = length pos"
    using levant_loop_full by blast
  show ?thesis
    using levant_unfold [OF assms c r4(1) r2(1) r1(1), of rk] r4(2) r2(2) r1(2)
    by (simp add: zeros_def)
qed

lemma levant_zero_rate: "levant pos 0 C alpha Lambda rk = Inl ZeroDivisionError"
  by (simp add: levant_def truediv_def and_then_def)

lemma levant_at_step:
  assumes "sr \<noteq> 0" and "k < length pos" and "coefficients C alpha Lambda = (a, L)"
    and "rk = 2 \<and> step = rk2_step a L (1 / sr) \<or> rk = 4 \<and> step = rk4_step a L (1 / sr)"
  shows "\<exists>s r. levant_loop step pos (py_range 0 (int k)) (0, 0) (zeros (length pos))
            = Inr (s, r) \<and>
      levant_loop step pos (py_range 0 (int k + 1)) (0, 0) (zeros (length pos))
        = Inr (fst (step (pos ! k) s), r[k := snd (step (pos ! k) s)]) \<and>
      (\<exists>res. levant pos sr C alpha Lambda rk = Inr res \<and> res ! k = snd (step (pos ! k) s))"
proof -
  from levant_run_step [OF assms(2), of step "(0, 0)"]
  obtain s r s' res where run:
    "levant_loop step pos (py_range 0 (int k)) (0, 0) (zeros (length pos)) = Inr (s, r)"
    "levant_loop step pos (py_range 0 (int k + 1)) (0, 0) (zeros (length pos))
        = Inr (fst (step (pos ! k) s), r[k := snd (step (pos ! k) s)])"
    "levant_loop step pos (py_range 0 (len pos)) (0, 0) (zeros (length pos)) = Inr (s', res)"
    "res ! k = snd (step (pos ! k) s)"
    by blast
  have "levant pos sr C alpha Lambda rk = Inr res"
    using assms(1,3,4) run(3) by (auto simp: levant_def truediv_def and_then_def)
  then show ?thesis using run(1,2,4) by blast
qed

text \<open>
  Claim C4. Let \<open>(u1, x)\<close> be the state after the steps before \<open>k\<close>. With \<^verbatim>\<open>rk=2\<close>, step
  \<open>k\<close> evaluates \<open>f\<close> at \<open>(u1, x)\<close>, then at the state half a step further along that
  derivative, advances \<open>u1\<close> and \<open>x\<close> by \<open>T\<close> times the second-stage derivatives and stores
  the second-stage \<open>dx/dt\<close> in \<open>result[k]\<close>. With \<^verbatim>\<open>rk=4\<close>, step \<open>k\<close> makes the four stage
  evaluations, advances \<open>x\<close> by \<open>T\<close> times \<open>(k1dx + 2\<cdot>k2dx + 2\<cdot>k3dx + k4dx)/6\<close> and stores that
  same combination in \<open>result[k]\<close>. Every stage is evaluated at the same sample \<open>pos[k]\<close>,
  and \<open>result[k]\<close> is what the call returns at index \<open>k\<close>.
\<close>

theorem levant_rk2_rk4_step:
  assumes "sr \<noteq> 0" and "k < length pos" and "Lambda = None \<longrightarrow> 0 \<le> C"
    and "coefficients C alpha Lambda = (a, L)"
  shows
   "(\<exists>u1 x r.
       levant_loop (rk2_step a L (1 / sr)) pos (py_range 0 (int k)) (0, 0) (zeros (length pos))
         = Inr ((u1, x), r) \<and>
       (case f a L (pos ! k) u1 x of (k1du1, k1dx) \<Rightarrow>
        case f a L (pos ! k) (u1 + k1du1 * ((1 / sr) / 2)) (x + k1dx * ((1 / sr) / 2)) of
          (k2du1, k2dx) \<Rightarrow>
            levant_loop (rk2_step a L (1 / sr)) pos (py_range 0 (int k + 1)) (0, 0)
                (zeros (length pos))
              = Inr ((u1 + k2du1 * (1 / sr), x + k2dx * (1 / sr)), r[k := k2dx]) \<and>
            (\<exists>res. levant pos sr C alpha Lambda 2 = Inr res \<and> res ! k = k2dx))) \<and>
    (\<exists>u1 x r.
       levant_loop (rk4_step a L (1 / sr)) pos (py_range 0 (int k)) (0, 0) (zeros (length pos))
         = Inr ((u1, x), r) \<and>
       (case f a L (pos ! k) u1 x of (k1du1, k1dx) \<Rightarrow>
        case f a L (pos ! k) (u1 + ((1 / sr) / 2) * k1du1) (x + ((1 / sr) / 2) * k1dx) of
          (k2du1, k2dx) \<Rightarrow>
        case f a L (pos ! k) (u1 + ((1 / sr) / 2) * k2du1) (x + ((1 / sr) / 2) * k2dx) of
          (k3du1, k3dx) \<Rightarrow>
        case f a L (pos ! k) (u1 + (1 / sr) * k3du1) (x + (1 / sr) * k3dx) of
          (k4du1, k4dx) \<Rightarrow>
            levant_loop (rk4_step a L (1 / sr)) pos (py_range 0 (int k + 1)) (0, 0)
                (zeros (length pos))
              = Inr ((u1 + ((1 / sr) / 6) * (k1du1 + 2 * k2du1 + 2 * k3du1 + k4du1),
                      x + (1 / sr) * ((k1dx + 2 * k2dx + 2 * k3dx + k4dx) / 6)),
                     r[k := (k1dx + 2 * k2dx + 2 * k3dx + k4dx) / 6]) \<and>
            (\<exists>res. levant pos sr C alpha Lambda 4 = Inr res \<and>
                   res ! k = (k1dx + 2 * k2dx + 2 * k3dx + k4dx) / 6)))"
proof
  from levant_at_step [OF assms(1,2,4), of 2 "rk2_step a L (1 / sr)"]
  obtain u1 x r where run:
    "levant_loop (rk2_step a L (1 / sr)) pos (py_range 0 (int k)) (0, 0) (zeros (length pos))
       = Inr ((u1, x), r)"
    "levant_loop (rk2_step a L (1 / sr)) pos (py_range 0 (int k + 1)) (0, 0)
         (zeros (length pos))
       = Inr (fst (rk2_step a L (1 / sr) (pos ! k) (u1, x)),
              r[k := snd (rk2_step a L (1 / sr) (pos ! k) (u1, x))])"
    "\<exists>res. levant pos sr C alpha Lambda 2 = Inr res \<and>
       res ! k = snd (rk2_step a L (1 / sr) (pos ! k) (u1, x))"
    by auto
  show "\<exists>u1 x r.
       levant_loop (rk2_step a L (1 / sr)) pos (py_range 0 (int k)) (0, 0) (zeros (length pos))
         = Inr ((u1, x), r) \<and>
       (case f a L (pos ! k) u1 x of (k1du1, k1dx) \<Rightarrow>
        case f a L (pos ! k) (u1 + k1du1 * ((1 / sr) / 2)) (x + k1dx * ((1 / sr) / 2)) of
          (k2du1, k2dx) \<Rightarrow>
            levant_loop (rk2_step a L (1 / sr)) pos (py_range 0 (int k + 1)) (0, 0)
                (zeros (length pos))
              = Inr ((u1 + k2du1 * (1 / sr), x + k2dx * (1 / sr)), r[k := k2dx]) \<and>
            (\<exists>res. levant pos sr C alpha Lambda 2 = Inr res \<and> res ! k = k2dx))"
    apply (rule exI [of _ u1], rule exI [of _ x], rule exI [of _ r])
    using run by (simp add: rk2_step_def Let_def split: prod.splits)
next
  from levant_at_step [OF assms(1,2,4), of 4 "rk4_step a L (1 / sr)"]
  obtain u1 x r where run:
    "levant_loop (rk4_step a L (1 / sr)) pos (py_range 0 (int k)) (0, 0) (zeros (length pos))
       = Inr ((u1, x), r)"
    "levant_loop (rk4_step a L (1 / sr)) pos (py_range 0 (int k + 1)) (0, 0)
         (zeros (length pos))
       = Inr (fst (rk4_step a L (1 / sr) (pos ! k) (u1, x)),
              r[k := snd (rk4_step a L (1 / sr) (pos ! k) (u1, x))])"
    "\<exists>res. levant pos sr C alpha Lambda 4 = Inr res \<and>
       res ! k = snd (rk4_step a L (1 / sr) (pos ! k) (u1, x))"
    by auto
  show "\<exists>u1 x r.
       levant_loop (rk4_step a L (1 / sr)) pos (py_range 0 (int k)) (0, 0) (zeros (length pos))
         = Inr ((u1, x), r) \<and>
       (case f a L (pos ! k) u1 x of (k1du1, k1dx) \<Rightarrow>
        case f a L (pos ! k) (u1 + ((1 / sr) / 2) * k1du1) (x + ((1 / sr) / 2) * k1dx) of
          (k2du1, k2dx) \<Rightarrow>
        case f a L (pos ! k) (u1 + ((1 / sr) / 2) * k2du1) (x + ((1 / sr) / 2) * k2dx) of
          (k3du1, k3dx) \<Rightarrow>
        case f a L (pos ! k) (u1 + (1 / sr) * k3du1) (x + (1 / sr) * k3dx) of
          (k4du1, k4dx) \<Rightarrow>
            levant_loop (rk4_step a L (1 / sr)) pos (py_range 0 (int k + 1)) (0, 0)
                (zeros (length pos))
              = Inr ((u1 + ((1 / sr) / 6) * (k1du1 + 2 * k2du1 + 2 * k3du1 + k4du1),
                      x + (1 / sr) * ((k1dx + 2 * k2dx + 2 * k3dx + k4dx) / 6)),
                     r[k := (k1dx + 2 * k2dx + 2 * k3dx + k4dx) / 6]) \<and>
            (\<exists>res. levant pos sr C alpha Lambda 4 = Inr res \<and>
                   res ! k = (k1dx + 2 * k2dx + 2 * k3dx + k4dx) / 6))"
    apply (rule exI [of _ u1], rule exI [of _ x], rule exI [of _ r])
    using run by (simp add: rk4_step_def Let_def split: prod.splits)
qed

theorem levant_rk2_rk4_step_witness:
  "(\<exists>res. levant [4] (1 / 3) 1 None None 2 = Inr res \<and> res ! 0 = 53 / 20) \<and>
   (\<exists>res. levant [1, 1] 1 1 (Some 1) (Some 0) 4 = Inr res \<and> res ! 1 = 1)"
proof
  have c: "coefficients 1 None None = (11 / 10, 1)" by (simp add: coefficients_def)
  have none: "(None :: real option) = None \<longrightarrow> (0::real) \<le> 1" by simp
  from levant_rk2_rk4_step
    [where sr = "1 / 3" and k = 0 and pos = "[4]" and C = 1 and alpha = None and Lambda = None,
     OF _ _ none c]
  show "\<exists>res. levant [4] (1 / 3) 1 None None 2 = Inr res \<and> res ! 0 = 53 / 20"
    by (simp add: py_range_empty f_def)
next
  have c: "coefficients 1 (Some 1) (Some 0) = (1, 0)" by (simp add: coefficients_def)
  have first: "rk4_step 1 0 1 1 (0, 0) = ((1, 1 / 2), 1 / 2)"
    by (simp add: rk4_step_def f_def Let_def)
  have before: "levant_loop (rk4_step 1 0 (1 / 1)) [1, 1] (py_range 0 (int 1)) (0, 0)
      (zeros (length [1, 1::real])) = Inr ((1, 1 / 2), [1 / 2, 0])"
    by (simp add: py_range_rec py_range_empty getitem_def setitem_def len_def zeros_def
        first)
  from levant_rk2_rk4_step
    [where sr = 1 and k = 1 and pos = "[1, 1]" and C = 1 and alpha = "Some 1"
       and Lambda = "Some 0", OF _ _ _ c, THEN conjunct2]
  obtain u1 x r where run:
    "levant_loop (rk4_step 1 0 (1 / 1)) [1, 1] (py_range 0 (int 1)) (0, 0)
       (zeros (length [1, 1::real])) = Inr ((u1, x), r)"
    and at: "case f 1 0 ([1, 1] ! 1) u1 x of (k1du1, k1dx) \<Rightarrow>
        case f 1 0 ([1, 1] ! 1) (u1 + ((1 / 1) / 2) * k1du1) (x + ((1 / 1) / 2) * k1dx) of
          (k2du1, k2dx) \<Rightarrow>
        case f 1 0 ([1, 1] ! 1) (u1 + ((1 / 1) / 2) * k2du1) (x + ((1 / 1) / 2) * k2dx) of
          (k3du1, k3dx) \<Rightarrow>
        case f 1 0 ([1, 1] ! 1) (u1 + (1 / 1) * k3du1) (x + (1 / 1) * k3dx) of
          (k4du1, k4dx) \<Rightarrow>
            levant_loop (rk4_step 1 0 (1 / 1)) [1, 1] (py_range 0 (int 1 + 1)) (0, 0)
                (zeros (length [1, 1::real]))
              = Inr ((u1 + ((1 / 1) / 6) * (k1du1 + 2 * k2du1 + 2 * k3du1 + k4du1),
                      x + (1 / 1) * ((k1dx + 2 * k2dx + 2 * k3dx + k4dx) / 6)),
                     r[1 := (k1dx + 2 * k2dx + 2 * k3dx + k4dx) / 6]) \<and>
            (\<exists>res. levant [1, 1] 1 1 (Some 1) (Some 0) 4 = Inr res \<and>
                   res ! 1 = (k1dx + 2 * k2dx + 2 * k3dx + k4dx) / 6)"
    by auto
  have state: "u1 = 1" "x = 1 / 2" using run before by simp_all
  show "\<exists>res. levant [1, 1] 1 1 (Some 1) (Some 0) 4 = Inr res \<and> res ! 1 = 1"
    using at unfolding state by (simp add: f_def)
qed

subsection \<open>Levant: an integration order outside 1, 2, 4\<close>

text \<open>
  Claim C10. For every position sequence and every \<open>rk\<close> other than 1, 2 and 4 (and a
  sample rate that is not 0, so that \<open>T = 1/sr\<close> is computed), \<open>levant\<close> raises no error
  and returns the zero-initialised array of the length of \<open>pos\<close> unchanged.
\<close>

theorem levant_other_rk_returns_zeros:
  assumes "sr \<noteq> 0" and "rk \<notin> {1, 2, 4}"
  shows "levant pos sr C alpha Lambda rk = Inr (replicate (length pos) 0)"
  using assms by (simp add: levant_def truediv_def and_then_def zeros_def split: prod.splits)

theorem levant_other_rk_returns_zeros_witness:
  "levant [1, 5, 2] 100 1 None None 3 = Inr [0, 0, 0]"
  using levant_other_rk_returns_zeros [of 100 3 "[1, 5, 2]" 1 None None] by simp

subsection \<open>Median filter\<close>

lemma slice_nat:
  assumes "0 \<le> a" and "k \<le> length xs"
  shows "slice xs a (int k) = map (nth xs) [nat a..<k]"
proof (cases "a \<le> int k")
  case True
  then have "nat a \<le> k" using assms(1) by linarith
  have clip: "min a (len xs) = a" "min (int k) (len xs) = int k"
    using True assms(2) by (simp_all add: len_def)
  have "slice xs a (int k) = take (k - nat a) (drop (nat a) xs)"
    using assms(1) clip by (simp add: slice_def Let_def nat_diff_distrib')
  also have "\<dots> = drop (nat a) (take k xs)" by (simp add: drop_take)
  also have "\<dots> = map (nth xs) [nat a..<k]"
    using assms(2) by (intro nth_equalityI) auto
  finally show ?thesis .
next
  case False
  then have "int k \<le> min a (len xs)" using assms(2) by (simp add: len_def)
  then have "nat (min (int k) (len xs) - min a (len xs)) = 0" by simp
  moreover have "[nat a..<k] = []" using False by simp
  ultimately show ?thesis using assms(1) by (simp add: slice_def Let_def)
qed

lemma median_filter_loop_steps:
  "length result = length pos \<Longrightarrow> \<forall>k \<in> set ks. k < length pos \<Longrightarrow>
   \<exists>res. median_filter_loop pos n (map int ks) result = Inr res \<and>
         length res = length pos \<and>
         (\<forall>k \<in> set ks. res ! k = median (slice pos (max (int k - n) 0) (int k))) \<and>
         (\<forall>j. j \<notin> set ks \<longrightarrow> res ! j = result ! j)"
proof (induction ks arbitrary: result)
  case Nil
  then show ?case by simp
next
  case (Cons k ks)
  let ?m = "median (slice pos (max (int k - n) 0) (int k))"
  have k: "k < length result" using Cons.prems by simp
  have "length (result[k := ?m]) = length pos" using Cons.prems by simp
  moreover have "\<forall>k \<in> set ks. k < length pos" using Cons.prems by simp
  ultimately obtain res where res:
    "median_filter_loop pos n (map int ks) (result[k := ?m]) = Inr res"
    "length res = length pos"
    "\<forall>k \<in> set ks. res ! k = median (slice pos (max (int k - n) 0) (int k))"
    "\<forall>j. j \<notin> set ks \<longrightarrow> res ! j = result[k := ?m] ! j"
    using Cons.IH by blast
  have run: "median_filter_loop pos n (map int (k # ks)) result = Inr res"
    using k res(1) by (simp add: setitem_nat)
  have at_k: "res ! k = ?m"
  proof (cases "k \<in> set ks")
    case True
    then show ?thesis using res(3) by blast
  next
    case False
    then show ?thesis using res(4) k by simp
  qed
  have "\<forall>j. j \<notin> set (k # ks) \<longrightarrow> res ! j = result ! j" using res(4) by auto
  then show ?case using run res(2,3) at_k by auto
qed

text \<open>
  Claim C8. The median filter returns \<open>result[0] = 0\<close> and, for every \<open>k \<ge> 1\<close>,
  \<open>result[k]\<close> is the median of the window \<^verbatim>\<open>pos[max(k-n,0):k]\<close>; that window holds the
  samples at the indices \<open>max(k-n,0), \<dots>, k-1\<close>, so \<open>pos[k]\<close> itself is not in it.
\<close>

theorem median_filter_window:
  "\<exists>res. median_filter pos n = Inr res \<and> length res = length pos \<and>
     (pos \<noteq> [] \<longrightarrow> res ! 0 = Val 0) \<and>
     (\<forall>k. 1 \<le> k \<and> k < length pos \<longrightarrow>
        res ! k = median (slice pos (max (int k - n) 0) (int k)) \<and>
        slice pos (max (int k - n) 0) (int k) = map (nth pos) [nat (max (int k - n) 0)..<k])"
proof -
  let ?z = "map Val (zeros (length pos))"
  have range: "py_range 1 (len pos) = map int [1..<length pos]"
    using py_range_nat [of 1 "length pos"] by (simp add: len_def)
  have "length ?z = length pos" by (simp add: zeros_def)
  moreover have "\<forall>k \<in> set [1..<length pos]. k < length pos" by simp
  ultimately obtain res where res:
    "median_filter_loop pos n (map int [1..<length pos]) ?z = Inr res"
    "length res = length pos"
    "\<forall>k \<in> set [1..<length pos]. res ! k = median (slice pos (max (int k - n) 0) (int k))"
    "\<forall>j. j \<notin> set [1..<length pos] \<longrightarrow> res ! j = ?z ! j"
    using median_filter_loop_steps [of ?z pos "[1..<length pos]" n] by blast
  have "res ! 0 = Val 0" if "pos \<noteq> []"
    using res(4) that by (simp add: zeros_def)
  moreover have "slice pos (max (int k - n) 0) (int k)
      = map (nth pos) [nat (max (int k - n) 0)..<k]" if "k < length pos" for k
    using that by (simp add: slice_nat)
  ultimately show ?thesis
    using res(1,2,3) by (auto simp: median_filter_def range)
qed

theorem median_filter_window_witness:
  "\<exists>res. median_filter [3, 1, 2, 5] 2 = Inr res \<and> res ! 0 = Val 0 \<and> res ! 3 = Val (3 / 2)"
proof -
  from median_filter_window [of "[3, 1, 2, 5]" 2]
  obtain res where all: "median_filter [3, 1, 2, 5] 2 = Inr res \<and>
     length res = length [3, 1, 2, 5::real] \<and>
     ([3, 1, 2, 5::real] \<noteq> [] \<longrightarrow> res ! 0 = Val 0) \<and>
     (\<forall>k. 1 \<le> k \<and> k < length [3, 1, 2, 5::real] \<longrightarrow>
        res ! k = median (slice [3, 1, 2, 5] (max (int k - 2) 0) (int k)) \<and>
        slice [3, 1, 2, 5::real] (max (int k - 2) 0) (int k)
          = map (nth [3, 1, 2, 5]) [nat (max (int k - 2) 0)..<k])" ..
  note res = all [THEN conjunct1] all [THEN conjunct2, THEN conjunct2, THEN conjunct1]
    all [THEN conjunct2, THEN conjunct2, THEN conjunct2]
  have sl: "slice [3, 1, 2, 5::real] (max (int 3 - 2) 0) (int 3) = [1, 2]"
    by (simp add: slice_def len_def Let_def)
  have md: "median [1, 2] = Val (3 / 2)"
    by (simp add: median_def Let_def)
  from res(3) [rule_format, of 3]
  have "res ! 3 = median (slice [3, 1, 2, 5] (max (int 3 - 2) 0) (int 3))"
    by simp
  then have "res ! 3 = Val (3 / 2)" by (simp only: sl md)
  then show ?thesis using res(1,2) by simp
qed

subsection \<open>Length of the results\<close>

text \<open>
  Claim C5. For every non-empty position sequence and a positive sample rate, each
  estimator (FOAW with either scoring variant, the median filter, and Levant's
  differentiator with \<open>rk\<close> in \<open>{1, 2, 4}\<close>) returns a sequence as long as the position
  sequence.
\<close>

theorem estimators_preserve_length:
  assumes "0 < sr" and "pos \<noteq> []"
  shows "(\<exists>res. foaw pos sr noise_max n best = Inr res \<and> length res = length pos) \<and>
         (\<exists>res. median_filter pos m = Inr res \<and> length res = length pos) \<and>
         (\<forall>rk \<in> {1, 2, 4}.
            \<exists>res. levant pos sr C alpha Lambda rk = Inr res \<and> length res = length pos)"
proof -
  have sr: "sr \<noteq> 0" using assms(1) by simp
  have "\<exists>res. foaw pos sr noise_max n best = Inr res \<and> length res = length pos"
    using foaw_steps [OF sr, of pos noise_max n best] by blast
  moreover have "\<exists>res. median_filter pos m = Inr res \<and> length res = length pos"
  proof -
    have "length (map Val (zeros (length pos))) = length pos" by (simp add: zeros_def)
    moreover have "\<forall>k \<in> set [1..<length pos]. k < length pos" by simp
    moreover have "py_range 1 (len pos) = map int [1..<length pos]"
      using py_range_nat [of 1 "length pos"] by (simp add: len_def)
    ultimately show ?thesis
      using median_filter_loop_steps [of "map Val (zeros (length pos))" pos
          "[1..<length pos]" m]
      by (auto simp: median_filter_def)
  qed
  moreover have "\<forall>rk \<in> {1, 2, 4}.
      \<exists>res. levant pos sr C alpha Lambda rk = Inr res \<and> length res = length pos"
    using levant_total [OF sr] by blast
  ultimately show ?thesis by blast
qed

theorem estimators_preserve_length_witness:
  "(\<exists>res. foaw [0, 1, 3] 100 0 16 True = Inr res \<and> length res = 3) \<and>
   (\<exists>res. median_filter [0, 1, 3] 5 = Inr res \<and> length res = 3) \<and>
   (\<exists>res. levant [0, 1, 3] 100 1 None None 4 = Inr res \<and> length res = 3)"
  using estimators_preserve_length [of 100 "[0, 1, 3]" 0 16 True 5 1 None None]
  by (simp add: numeral_3_eq_3)

subsection \<open>Parameters outside their domain\<close>

text \<open>
  Claim C9 says that the estimators reject a parameter outside its domain at entry. They
  do not: with a negative sample rate and a negative \<open>noise_max\<close> FOAW returns a result,
  and so does Levant's differentiator with \<open>C = 0\<close>, and with a negative sample rate and
  \<open>rk = 3\<close>.
\<close>

theorem parameter_domain_unchecked_counterexample:
  "foaw [0, 1, 3] (- 1) (- 1) 16 False = Inr [0, 0, - 2] \<and>
   levant [1] 1 0 None None 1 = Inr [0] \<and>
   levant [1] (- 1) 1 None None 3 = Inr [0]"
proof -
  have "foaw [0, 1, 3] (- 1) (- 1) 16 False = Inr [0, 0, - 2]"
    by (simp add: foaw_def truediv_def and_then_def len_def zeros_def trial_sizes_def
        interior_offsets_def slope_def getitem_def setitem_def py_range_rec py_range_empty)
  moreover have "levant [1] 1 0 None None 1 = Inr [0]"
    by (simp add: levant_def truediv_def and_then_def len_def zeros_def coefficients_def
        rk1_step_def f_def getitem_def setitem_def py_range_rec py_range_empty)
  moreover have "levant [1] (- 1) 1 None None 3 = Inr [0]"
    by (simp add: levant_def truediv_def and_then_def zeros_def coefficients_def)
  ultimately show ?thesis by blast
qed

text \<open>
  Claim C9, as the code has it. Neither estimator checks its parameters. The only failure
  at entry is the division \<open>T = 1/sr\<close>, which raises when the sample rate is 0; for every
  other sample rate, and whatever \<open>noise_max\<close>, \<open>n\<close>, \<open>C\<close> and \<open>rk\<close> are, FOAW and Levant's
  differentiator return a sequence as long as the position sequence.
\<close>

theorem only_zero_rate_fails_at_entry:
  "foaw pos 0 noise_max n best = Inl ZeroDivisionError \<and>
   levant pos 0 C alpha Lambda rk = Inl ZeroDivisionError \<and>
   (sr \<noteq> 0 \<longrightarrow>
      (\<exists>res. foaw pos sr noise_max n best = Inr res \<and> length res = length pos) \<and>
      (\<exists>res. levant pos sr C alpha Lambda rk = Inr res \<and> length res = length pos))"
  using foaw_zero_rate [of pos noise_max n best] levant_zero_rate [of pos C alpha Lambda rk]
    foaw_steps [of sr pos noise_max n best] levant_total [of sr pos C alpha Lambda rk]
  by blast

theorem only_zero_rate_fails_at_entry_witness:
  "(- 1 :: real) \<noteq> 0 \<and>
   (\<exists>res. foaw [0, 1, 3] (- 1) (- 1) 16 False = Inr res \<and> length res = 3) \<and>
   (\<exists>res. levant [0, 1, 3] (- 1) 0 None None 3 = Inr res \<and> length res = 3)"
  using only_zero_rate_fails_at_entry
    [of "[0, 1, 3]" "- 1" 16 False 0 None None 3 "- 1"]
  by (simp add: numeral_3_eq_3)

end
